theory Spec2Isabelle
  imports Main "HOL-Library.Multiset" "HOL-Library.Product_Lexorder"
begin

section \<open>The registration store of the football bot (database.py)\<close>

text \<open>
  \<^verbatim>\<open>FootballDatabase\<close> keeps two SQLite tables, \<^verbatim>\<open>events\<close> and \<^verbatim>\<open>registrations\<close>.
  A table is modelled as the list of its rows in rowid order (rows are only ever appended
  or updated in place, never deleted), a \<^verbatim>\<open>SELECT ... WHERE\<close> as a \<open>filter\<close>, an
  \<^verbatim>\<open>UPDATE ... WHERE\<close> as a \<open>map\<close> that rewrites the matching rows, and
  \<^verbatim>\<open>cursor.fetchone()\<close> as the first row of the result or \<open>None\<close>.
  Every method opens its own connection and commits at the end, so a method is a function
  from the store to a result and the next store.
\<close>

subsection \<open>Rows\<close>

text \<open>The two values the code ever writes into a \<^verbatim>\<open>status\<close> column.\<close>

datatype status = Active | Cancelled

text \<open>The two values the code ever writes into \<^verbatim>\<open>registration_type\<close>.\<close>

datatype reg_type = MainList | Reserve

text \<open>
  \<^verbatim>\<open>CURRENT_TIMESTAMP\<close> values are texts of the form \<^verbatim>\<open>YYYY-MM-DD HH:MM:SS\<close>; their text
  order is the order of the instants, so a timestamp is modelled as a number of seconds.
\<close>

type_synonym timestamp = nat

record event =
  ev_id :: int
  date :: string
  time :: string
  max_players :: int
  description :: string
  created_by :: int
  created_at :: timestamp
  ev_status :: status

record registration =
  reg_id :: int
  event_id :: int
  user_id :: int
  username :: "string option"
  first_name :: "string option"
  registration_type :: reg_type
  registered_at :: timestamp
  reg_status :: status

text \<open>
  The store: both tables and the two \<^verbatim>\<open>AUTOINCREMENT\<close> counters (the largest id ever
  handed out for each table).
\<close>

record store =
  events :: "event list"
  registrations :: "registration list"
  events_seq :: int
  registrations_seq :: int

subsection \<open>What the sqlite3 module can bind and store\<close>

text \<open>
  An \<^verbatim>\<open>INTEGER\<close> of SQLite is a signed 64-bit number. \<^verbatim>\<open>cursor.execute\<close> raises
  \<^verbatim>\<open>OverflowError\<close> when a Python \<^verbatim>\<open>int\<close> among its parameters lies outside that range;
  this happens before the statement runs. No method of \<^verbatim>\<open>FootballDatabase\<close> catches it.
  (Texts reach the store from chat messages and profile names, far below the length SQLite
  accepts, a constant of its build; that limit is not modelled.)
\<close>

definition sql_int :: "int \<Rightarrow> bool" where
  "sql_int i \<longleftrightarrow> - 9223372036854775808 \<le> i \<and> i \<le> 9223372036854775807"

text \<open>
  The largest rowid. An \<^verbatim>\<open>INSERT\<close> into an \<^verbatim>\<open>AUTOINCREMENT\<close> table whose counter has
  reached it fails with \<^verbatim>\<open>SQLITE_FULL\<close>, which the module raises as
  \<^verbatim>\<open>sqlite3.OperationalError\<close>; the rowid is drawn before any constraint is checked.
\<close>

definition max_rowid :: int where
  "max_rowid = 9223372036854775807"

datatype error = IntegrityError | TypeError | OverflowError | OperationalError

subsection \<open>SQL helpers\<close>

definition fetchone :: "'a list \<Rightarrow> 'a option" where
  "fetchone rows = (case rows of [] \<Rightarrow> None | r # _ \<Rightarrow> Some r)"

text \<open>
  \<^verbatim>\<open>ORDER BY key\<close>: a stable sort of the rows in the order the scan delivers them. (SQL
  leaves the order of rows with equal keys open; SQLite's sorter keeps them in scan order.
  The theorems below only rely on the result being sorted by the key.)
\<close>

definition order_by :: "('a \<Rightarrow> 'k::linorder) \<Rightarrow> 'a list \<Rightarrow> 'a list" where
  "order_by key rows = sort_key key rows"

text \<open>\<^verbatim>\<open>WHERE event_id = ? AND user_id = ? AND status = 'active'\<close>\<close>

definition user_active :: "int \<Rightarrow> int \<Rightarrow> registration \<Rightarrow> bool" where
  "user_active eid uid r \<longleftrightarrow> event_id r = eid \<and> user_id r = uid \<and> reg_status r = Active"

text \<open>\<^verbatim>\<open>WHERE event_id = ? AND registration_type = ? AND status = 'active'\<close>\<close>

definition typed_active :: "int \<Rightarrow> reg_type \<Rightarrow> registration \<Rightarrow> bool" where
  "typed_active eid t r \<longleftrightarrow> event_id r = eid \<and> registration_type r = t \<and> reg_status r = Active"

text \<open>\<^verbatim>\<open>WHERE event_id = ? AND status = 'active'\<close>\<close>

definition event_active :: "int \<Rightarrow> registration \<Rightarrow> bool" where
  "event_active eid r \<longleftrightarrow> event_id r = eid \<and> reg_status r = Active"

text \<open>
  A query on \<^verbatim>\<open>registrations\<close> with \<^verbatim>\<open>event_id = ?\<close> reads the rows of that event through
  the index of \<^verbatim>\<open>UNIQUE(event_id, user_id)\<close>, that is in ascending \<^verbatim>\<open>user_id\<close>. The argument
  is the list of selected rows of one event.
\<close>

definition index_scan :: "registration list \<Rightarrow> registration list" where
  "index_scan rows = sort_key user_id rows"

subsection \<open>init_database, create_event, get_event\<close>

definition init_database :: store where
  "init_database = \<lparr>events = [], registrations = [], events_seq = 0, registrations_seq = 0\<rparr>"

text \<open>
  \<^verbatim>\<open>create_event\<close>: the last argument is the value of \<^verbatim>\<open>CURRENT_TIMESTAMP\<close> at the call.
  The result is \<^verbatim>\<open>cursor.lastrowid\<close>; \<open>Inl e\<close> is an exception that leaves the method, and
  the connection's context manager rolls back, so the store is the old one.
\<close>

definition create_event ::
  "store \<Rightarrow> string \<Rightarrow> string \<Rightarrow> int \<Rightarrow> int \<Rightarrow> string \<Rightarrow> timestamp \<Rightarrow> (error + int) \<times> store"
  where
  "create_event s d t mp cb descr now =
     (if \<not> (sql_int mp \<and> sql_int cb) then (Inl OverflowError, s)
      else if events_seq s \<ge> max_rowid then (Inl OperationalError, s)
      else (let i = events_seq s + 1
            in (Inr i, s\<lparr>events := events s @
                 [\<lparr>ev_id = i, date = d, time = t, max_players = mp, description = descr,
                   created_by = cb, created_at = now, ev_status = Active\<rparr>],
               events_seq := i\<rparr>)))"

definition get_event :: "store \<Rightarrow> int \<Rightarrow> error + event option" where
  "get_event s eid =
     (if \<not> sql_int eid then Inl OverflowError
      else Inr (fetchone (filter (\<lambda>e. ev_id e = eid) (events s))))"

subsection \<open>register_user\<close>

text \<open>
  The \<^verbatim>\<open>INSERT\<close> of \<^verbatim>\<open>register_user\<close>. The table is declared with
  \<^verbatim>\<open>UNIQUE(event_id, user_id)\<close>, over all rows whatever their status, so the insert raises
  \<^verbatim>\<open>sqlite3.IntegrityError\<close> when any row for the pair is stored. (The foreign key on
  \<^verbatim>\<open>event_id\<close> is not enforced: the code never switches \<^verbatim>\<open>PRAGMA foreign_keys\<close> on.)
\<close>

definition insert_registration ::
  "store \<Rightarrow> int \<Rightarrow> int \<Rightarrow> string option \<Rightarrow> string option \<Rightarrow> reg_type \<Rightarrow> timestamp
     \<Rightarrow> error + store" where
  "insert_registration s eid uid un fn rt now =
     (if registrations_seq s \<ge> max_rowid then Inl OperationalError
      else if filter (\<lambda>r. event_id r = eid \<and> user_id r = uid) (registrations s) \<noteq> []
      then Inl IntegrityError
      else let i = registrations_seq s + 1
           in Inr (s\<lparr>registrations := registrations s @
                       [\<lparr>reg_id = i, event_id = eid, user_id = uid, username = un,
                         first_name = fn, registration_type = rt, registered_at = now,
                         reg_status = Active\<rparr>],
                     registrations_seq := i\<rparr>))"

text \<open>
  \<^verbatim>\<open>register_user\<close>: \<open>Inr b\<close> is the returned boolean, \<open>Inl e\<close> an exception that leaves
  the method. The first \<^verbatim>\<open>execute\<close> binds both ids. \<^verbatim>\<open>cursor.fetchone()[0]\<close> on an empty
  result subscripts \<^verbatim>\<open>None\<close>, a \<^verbatim>\<open>TypeError\<close>. The \<^verbatim>\<open>except sqlite3.IntegrityError\<close>
  clause catches neither of these, nor the \<^verbatim>\<open>OperationalError\<close> of a full table. When an
  exception is raised the store is the old one.
\<close>

definition register_user ::
  "store \<Rightarrow> int \<Rightarrow> int \<Rightarrow> string option \<Rightarrow> string option \<Rightarrow> timestamp
     \<Rightarrow> (error + bool) \<times> store" where
  "register_user s eid uid un fn now =
     (if \<not> (sql_int eid \<and> sql_int uid) then (Inl OverflowError, s)
      else case fetchone (filter (user_active eid uid) (registrations s)) of
        Some _ \<Rightarrow> (Inr False, s)
      | None \<Rightarrow>
          (let main_count = int (length (filter (typed_active eid MainList) (registrations s)))
           in case fetchone (map max_players (filter (\<lambda>e. ev_id e = eid) (events s))) of
                None \<Rightarrow> (Inl TypeError, s)
              | Some mp \<Rightarrow>
                  (let rt = (if main_count < mp then MainList else Reserve)
                   in case insert_registration s eid uid un fn rt now of
                        Inl IntegrityError \<Rightarrow> (Inr False, s)
                      | Inl e \<Rightarrow> (Inl e, s)
                      | Inr s' \<Rightarrow> (Inr True, s'))))"

subsection \<open>unregister_user\<close>

definition set_cancelled :: "int \<Rightarrow> int \<Rightarrow> registration \<Rightarrow> registration" where
  "set_cancelled eid uid r = (if user_active eid uid r then r\<lparr>reg_status := Cancelled\<rparr> else r)"

definition set_main :: "int \<Rightarrow> int \<Rightarrow> registration \<Rightarrow> registration" where
  "set_main eid uid r = (if user_active eid uid r then r\<lparr>registration_type := MainList\<rparr> else r)"

text \<open>
  \<^verbatim>\<open>unregister_user\<close> has no \<^verbatim>\<open>try\<close>: the \<^verbatim>\<open>OverflowError\<close> of its first \<^verbatim>\<open>execute\<close>
  leaves the method.
\<close>

definition unregister_user :: "store \<Rightarrow> int \<Rightarrow> int \<Rightarrow> (error + bool) \<times> store" where
  "unregister_user s eid uid =
     (if \<not> (sql_int eid \<and> sql_int uid) then (Inl OverflowError, s)
      else case fetchone (map registration_type
                  (filter (user_active eid uid) (registrations s))) of
        None \<Rightarrow> (Inr False, s)
      | Some user_reg_type \<Rightarrow>
          (let regs1 = map (set_cancelled eid uid) (registrations s);
               regs2 =
                 (if user_reg_type = MainList
                  then (case fetchone (map user_id
                               (order_by registered_at
                                  (index_scan (filter (typed_active eid Reserve) regs1)))) of
                          None \<Rightarrow> regs1
                        | Some next_user \<Rightarrow> map (set_main eid next_user) regs1)
                  else regs1)
           in (Inr True, s\<lparr>registrations := regs2\<rparr>)))"

subsection \<open>cancel_event\<close>

text \<open>
  \<^verbatim>\<open>cursor.rowcount\<close> after an \<^verbatim>\<open>UPDATE\<close> is the number of rows its \<^verbatim>\<open>WHERE\<close> clause
  selected, whether or not the new value differs from the old one.
\<close>

definition cancel_event :: "store \<Rightarrow> int \<Rightarrow> (error + bool) \<times> store" where
  "cancel_event s eid =
     (if \<not> sql_int eid then (Inl OverflowError, s)
      else (let rowcount = length (filter (\<lambda>e. ev_id e = eid) (events s))
            in (Inr (rowcount > 0),
                s\<lparr>events := map (\<lambda>e. if ev_id e = eid then e\<lparr>ev_status := Cancelled\<rparr> else e)
                                (events s)\<rparr>)))"

subsection \<open>Queries\<close>

record player_info =
  pi_user_id :: int
  pi_username :: "string option"
  pi_first_name :: "string option"
  pi_registered_at :: timestamp

record reg_lists =
  main :: "player_info list"
  reserve :: "player_info list"

definition user_info :: "registration \<Rightarrow> player_info" where
  "user_info r = \<lparr>pi_user_id = user_id r, pi_username = username r,
                  pi_first_name = first_name r, pi_registered_at = registered_at r\<rparr>"

text \<open>The text order of the two type names: \<^verbatim>\<open>'main' < 'reserve'\<close>.\<close>

fun type_rank :: "reg_type \<Rightarrow> nat" where
  "type_rank MainList = 0"
| "type_rank Reserve = 1"

definition get_event_registrations :: "store \<Rightarrow> int \<Rightarrow> error + reg_lists" where
  "get_event_registrations s eid =
     (if \<not> sql_int eid then Inl OverflowError
      else (let regs = order_by (\<lambda>r. (type_rank (registration_type r), registered_at r))
                         (index_scan (filter (event_active eid) (registrations s)))
            in Inr \<lparr>main = map user_info (filter (\<lambda>r. registration_type r = MainList) regs),
                    reserve = map user_info (filter (\<lambda>r. registration_type r = Reserve) regs)\<rparr>))"

text \<open>Python's \<^verbatim>\<open>str\<close> of an integer: decimal digits, with a minus sign when negative.\<close>

function str_nat :: "nat \<Rightarrow> string" where
  "str_nat n = (if n < 10 then [''0123456789'' ! n]
                else str_nat (n div 10) @ [''0123456789'' ! (n mod 10)])"
  by pat_completeness auto
termination
  by (relation "measure id") auto

declare str_nat.simps [simp del]

definition str_int :: "int \<Rightarrow> string" where
  "str_int i = (if i < 0 then CHR ''-'' # str_nat (nat (- i)) else str_nat (nat i))"

text \<open>
  Python's \<^verbatim>\<open>a or b\<close> on an optional text: \<^verbatim>\<open>a\<close> when it is truthy, that is neither
  \<^verbatim>\<open>None\<close> nor the empty text, else \<^verbatim>\<open>b\<close>.
\<close>

fun py_or :: "string option \<Rightarrow> string \<Rightarrow> string" where
  "py_or None b = b"
| "py_or (Some a) b = (if a = [] then b else a)"

record player =
  p_user_id :: int
  p_username :: "string option"
  p_first_name :: "string option"
  display_name :: string

definition player_of :: "registration \<Rightarrow> player" where
  "player_of r = \<lparr>p_user_id = user_id r, p_username = username r, p_first_name = first_name r,
                  display_name = py_or (first_name r) (py_or (username r) (str_int (user_id r)))\<rparr>"

definition get_players_for_teams :: "store \<Rightarrow> int \<Rightarrow> error + player list" where
  "get_players_for_teams s eid =
     (if \<not> sql_int eid then Inl OverflowError
      else Inr (map player_of
             (order_by registered_at
                (index_scan (filter (typed_active eid MainList) (registrations s))))))"

subsection \<open>Sequences of operations\<close>

text \<open>
  The mutating calls the command layer makes. An exception raised by a call ends that call
  only; the store is as before.
\<close>

datatype op =
    CreateEvent string string int int string timestamp
  | RegisterUser int int "string option" "string option" timestamp
  | UnregisterUser int int
  | CancelEvent int

fun step :: "store \<Rightarrow> op \<Rightarrow> store" where
  "step s (CreateEvent d t mp cb descr now) = snd (create_event s d t mp cb descr now)"
| "step s (RegisterUser eid uid un fn now) = snd (register_user s eid uid un fn now)"
| "step s (UnregisterUser eid uid) = snd (unregister_user s eid uid)"
| "step s (CancelEvent eid) = snd (cancel_event s eid)"

definition run :: "op list \<Rightarrow> store" where
  "run ops = foldl step init_database ops"

text \<open>
  \<^verbatim>\<open>create_event_command\<close> in 5quadbot.py rejects \<^verbatim>\<open>max_players < 2 or max_players > 50\<close>
  before it calls \<^verbatim>\<open>create_event\<close>.
\<close>

fun valid_op :: "op \<Rightarrow> bool" where
  "valid_op (CreateEvent d t mp cb descr now) = (\<not> (mp < 2 \<or> mp > 50))"
| "valid_op _ = True"

subsection \<open>Table constraints and the capacity bound\<close>

text \<open>The table constraint \<^verbatim>\<open>UNIQUE(event_id, user_id)\<close> of \<^verbatim>\<open>registrations\<close>.\<close>

definition reg_unique :: "store \<Rightarrow> bool" where
  "reg_unique s \<longleftrightarrow> distinct (map (\<lambda>r. (event_id r, user_id r)) (registrations s))"

text \<open>
  The columns \<^verbatim>\<open>event_id\<close> and \<^verbatim>\<open>user_id\<close> of \<^verbatim>\<open>registrations\<close> hold SQLite integers: a
  row is only ever written through an \<^verbatim>\<open>execute\<close> that bound both.
\<close>

definition regs_storable :: "store \<Rightarrow> bool" where
  "regs_storable s \<longleftrightarrow>
     list_all (\<lambda>r. sql_int (event_id r) \<and> sql_int (user_id r)) (registrations s)"

text \<open>The primary key of \<^verbatim>\<open>events\<close>: ids are distinct and none exceeds the counter.\<close>

definition events_keyed :: "store \<Rightarrow> bool" where
  "events_keyed s \<longleftrightarrow>
     distinct (map ev_id (events s)) \<and> list_all (\<lambda>e. ev_id e \<le> events_seq s) (events s)"

text \<open>Every registration belongs to a stored event.\<close>

definition regs_refer :: "store \<Rightarrow> bool" where
  "regs_refer s \<longleftrightarrow> list_all (\<lambda>r. event_id r \<in> set (map ev_id (events s))) (registrations s)"

text \<open>Invariant 1: no event has more active main registrations than \<^verbatim>\<open>max_players\<close>.\<close>

definition main_count :: "store \<Rightarrow> int \<Rightarrow> nat" where
  "main_count s eid = length (filter (typed_active eid MainList) (registrations s))"

definition capacity_ok :: "store \<Rightarrow> bool" where
  "capacity_ok s \<longleftrightarrow>
     list_all (\<lambda>e. int (main_count s (ev_id e)) \<le> max_players e) (events s)"

definition store_ok :: "store \<Rightarrow> bool" where
  "store_ok s \<longleftrightarrow>
     events_keyed s \<and> reg_unique s \<and> regs_storable s \<and> regs_refer s \<and> capacity_ok s"

subsection \<open>Counting type changes\<close>

text \<open>
  The number of rows whose \<^verbatim>\<open>registration_type\<close> differs between two states of the
  registrations table, compared row by row.
\<close>

definition type_changes :: "registration list \<Rightarrow> registration list \<Rightarrow> nat" where
  "type_changes old new =
     length (filter (\<lambda>(x, y). registration_type x \<noteq> registration_type y) (zip old new))"

subsection \<open>The display name as the specification words it\<close>

text \<open>
  The specification's rule for \<^verbatim>\<open>display_name\<close>, read literally: the first name unless it
  is absent, else the username unless it is absent, else the user id as text.
\<close>

definition spec_display_name :: "string option \<Rightarrow> string option \<Rightarrow> int \<Rightarrow> string" where
  "spec_display_name fn un uid =
     (case fn of Some f \<Rightarrow> f
      | None \<Rightarrow> (case un of Some u \<Rightarrow> u | None \<Rightarrow> str_int uid))"

subsection \<open>Example stores\<close>

text \<open>
  One event with room for two players; three users join in turn, the second with an empty
  first name, the third with no names at all.
\<close>

definition demo_ops :: "op list" where
  "demo_ops = [CreateEvent ''01/01/2027'' ''18:00'' 2 99 '''' 0,
               RegisterUser 1 7 (Some ''alice'') (Some ''Alice'') 10,
               RegisterUser 1 8 (Some ''bob'') (Some '''') 20,
               RegisterUser 1 9 None None 30]"

definition demo_store :: store where
  "demo_store = run demo_ops"

text \<open>The same store before the third user joined: nobody is on the reserve list.\<close>

definition pair_store :: store where
  "pair_store = run (take 3 demo_ops)"

text \<open>The demo store after user 7 has left event 1.\<close>

definition left_store :: store where
  "left_store = snd (unregister_user demo_store 1 7)"

text \<open>The demo store after event 1 has been cancelled.\<close>

definition cancelled_store :: store where
  "cancelled_store = snd (cancel_event demo_store 1)"

section \<open>Properties\<close>

subsection \<open>Auxiliary facts\<close>

lemma fetchone_None [simp]: "fetchone xs = None \<longleftrightarrow> xs = []"
  by (cases xs) (simp_all add: fetchone_def)

lemma fetchone_Nil [simp]: "fetchone [] = None"
  by (simp add: fetchone_def)

lemma fetchone_Cons [simp]: "fetchone (x # xs) = Some x"
  by (simp add: fetchone_def)

lemma fetchone_Some: "fetchone xs = Some x \<longleftrightarrow> (\<exists>ys. xs = x # ys)"
  by (cases xs) (auto simp add: fetchone_def)

lemma stored_ids:
  "regs_storable s \<Longrightarrow> r \<in> set (registrations s) \<Longrightarrow>
     sql_int (event_id r) \<and> sql_int (user_id r)"
  by (simp add: regs_storable_def list_all_iff)

lemma active_row_ids:
  assumes "regs_storable s" and "filter (user_active eid uid) (registrations s) \<noteq> []"
  shows "sql_int eid \<and> sql_int uid"
proof -
  from assms(2) obtain r where "r \<in> set (registrations s)" "user_active eid uid r"
    by (auto simp add: filter_empty_conv)
  with stored_ids [OF assms(1), of r] show ?thesis
    by (simp add: user_active_def)
qed

subsection \<open>Joining twice\<close>

text \<open>
  C6. If the user already has an active registration for the event, \<^verbatim>\<open>register_user\<close>
  returns false and the store is exactly the one before the call. (The ids of a stored row
  are SQLite integers, \<open>regs_storable\<close>, so binding them does not fail.)
\<close>

theorem register_user_already_active:
  "regs_storable s \<Longrightarrow> filter (user_active eid uid) (registrations s) \<noteq> [] \<Longrightarrow>
     register_user s eid uid un fn now = (Inr False, s)"
proof -
  assume st: "regs_storable s" and a: "filter (user_active eid uid) (registrations s) \<noteq> []"
  from active_row_ids [OF st a] have "sql_int eid \<and> sql_int uid" .
  with a show ?thesis
    by (cases "filter (user_active eid uid) (registrations s)")
       (simp_all add: register_user_def)
qed

theorem register_user_already_active_witness:
  "regs_storable demo_store \<and>
   filter (user_active 1 8) (registrations demo_store) \<noteq> [] \<and>
   register_user demo_store 1 8 (Some ''bob'') (Some ''Bob'') 40 = (Inr False, demo_store)"
proof -
  have st: "regs_storable demo_store"
    by code_simp
  have h: "filter (user_active 1 8) (registrations demo_store) \<noteq> []"
    by code_simp
  from register_user_already_active [OF st h] st h show ?thesis
    by blast
qed

subsection \<open>Leaving when not registered\<close>

text \<open>
  C7, as stated, fails: no user of the demo store has the id \<open>2^63\<close>, so that user has no
  active registration for event 1, and \<^verbatim>\<open>unregister_user\<close> for it does not return false
  but raises \<^verbatim>\<open>OverflowError\<close> when the id is bound.
\<close>

theorem unregister_user_not_registered_counterexample:
  "map user_id (registrations demo_store) = [7, 8, 9] \<and>
   unregister_user demo_store 1 9223372036854775808 = (Inl OverflowError, demo_store)"
  by code_simp

text \<open>
  C7, amended. If the user has no active registration for the event and both ids are within
  the signed 64-bit range, \<^verbatim>\<open>unregister_user\<close> returns false and the store, events and
  registrations alike, is exactly the one before the call; with an id outside that range
  the call raises \<^verbatim>\<open>OverflowError\<close> and the store is again the one before the call.
\<close>

theorem unregister_user_not_registered:
  "filter (user_active eid uid) (registrations s) = [] \<Longrightarrow>
     (sql_int eid \<and> sql_int uid \<longrightarrow> unregister_user s eid uid = (Inr False, s)) \<and>
     (\<not> (sql_int eid \<and> sql_int uid) \<longrightarrow> unregister_user s eid uid = (Inl OverflowError, s))"
  by (simp add: unregister_user_def)

theorem unregister_user_not_registered_witness:
  "filter (user_active 1 5) (registrations demo_store) = [] \<and> sql_int 1 \<and> sql_int 5 \<and>
   unregister_user demo_store 1 5 = (Inr False, demo_store) \<and>
   filter (user_active 1 (- 9223372036854775809)) (registrations demo_store) = [] \<and>
   \<not> sql_int (- 9223372036854775809) \<and>
   unregister_user demo_store 1 (- 9223372036854775809) = (Inl OverflowError, demo_store)"
proof -
  have h: "filter (user_active 1 5) (registrations demo_store) = []"
    "filter (user_active 1 (- 9223372036854775809)) (registrations demo_store) = []"
    by code_simp+
  have r: "sql_int 1" "sql_int 5" "\<not> sql_int (- 9223372036854775809)"
    by (simp_all add: sql_int_def)
  from unregister_user_not_registered [OF h(1)] unregister_user_not_registered [OF h(2)] h r
  show ?thesis
    by blast
qed

subsection \<open>Joining an unknown event\<close>

text \<open>
  C4. The claim is that \<^verbatim>\<open>register_user\<close> returns false for an event id that is not
  stored. The code instead raises: in the demo store no event has id 5, and the call
  for event 5 leaves \<^verbatim>\<open>register_user\<close> with a \<^verbatim>\<open>TypeError\<close> (the store is untouched).
\<close>

theorem register_user_unknown_event_raises:
  "get_event demo_store 5 = Inr None \<and>
   register_user demo_store 5 7 (Some ''alice'') (Some ''Alice'') 40
     = (Inl TypeError, demo_store)"
  by code_simp

subsection \<open>Joining again after leaving\<close>

text \<open>
  C1. The claim is that a user who left can join again and gets a new active row. In the
  code the cancelled row still occupies the pair under \<^verbatim>\<open>UNIQUE(event_id, user_id)\<close>:
  user 7 leaves event 1 of the demo store successfully, has no active registration
  afterwards, and the next \<^verbatim>\<open>register_user\<close> for the pair returns false and stores nothing.
\<close>

theorem register_after_leave_refused:
  "unregister_user demo_store 1 7 = (Inr True, left_store) \<and>
   filter (user_active 1 7) (registrations left_store) = [] \<and>
   register_user left_store 1 7 (Some ''alice'') (Some ''Alice'') 40 = (Inr False, left_store)"
  by code_simp

subsection \<open>The result of cancel_event\<close>

text \<open>
  C5, as stated, fails twice. Event 1 of \<open>cancelled_store\<close> is already cancelled, and
  \<^verbatim>\<open>cancel_event\<close> on it returns true again (and changes nothing). And the demo store has
  no event with id \<open>2^63\<close>, yet \<^verbatim>\<open>cancel_event\<close> for that id does not return false: binding
  the id raises \<^verbatim>\<open>OverflowError\<close>.
\<close>

theorem cancel_event_repeat_counterexample:
  "get_event cancelled_store 1 =
     Inr (Some \<lparr>ev_id = 1, date = ''01/01/2027'', time = ''18:00'', max_players = 2,
                description = '''', created_by = 99, created_at = 0, ev_status = Cancelled\<rparr>) \<and>
   cancel_event cancelled_store 1 = (Inr True, cancelled_store) \<and>
   map ev_id (events demo_store) = [1] \<and>
   cancel_event demo_store 9223372036854775808 = (Inl OverflowError, demo_store)"
  by code_simp

text \<open>
  C5, amended. For an event id within the signed 64-bit range, \<^verbatim>\<open>cancel_event\<close> returns
  true exactly when an event with that id is stored, whatever its status (so false on an
  unknown id, true again on an event that is already cancelled), and afterwards that event
  is the old one with status cancelled. For an id outside that range the call raises
  \<^verbatim>\<open>OverflowError\<close> and changes nothing.
\<close>

theorem cancel_event_result:
  "(sql_int eid \<longrightarrow>
      fst (cancel_event s eid) = Inr (get_event s eid \<noteq> Inr None) \<and>
      (get_event s eid = Inr (Some e) \<longrightarrow>
         get_event (snd (cancel_event s eid)) eid = Inr (Some (e\<lparr>ev_status := Cancelled\<rparr>)))) \<and>
   (\<not> sql_int eid \<longrightarrow> cancel_event s eid = (Inl OverflowError, s))"
proof -
  have a: "fst (cancel_event s eid) = Inr (get_event s eid \<noteq> Inr None)" if "sql_int eid"
    using that by (simp add: cancel_event_def get_event_def Let_def)
  have b: "fetchone (filter (\<lambda>e. ev_id e = eid) xs) = Some e \<Longrightarrow>
       fetchone (filter (\<lambda>e. ev_id e = eid)
          (map (\<lambda>e. if ev_id e = eid then e\<lparr>ev_status := Cancelled\<rparr> else e) xs))
        = Some (e\<lparr>ev_status := Cancelled\<rparr>)" for xs
    by (induction xs) (auto simp add: fetchone_def)
  have c: "get_event (snd (cancel_event s eid)) eid = Inr (Some (e\<lparr>ev_status := Cancelled\<rparr>))"
    if "sql_int eid" "get_event s eid = Inr (Some e)"
    using that b [of "events s"] by (simp add: cancel_event_def get_event_def Let_def)
  have d: "cancel_event s eid = (Inl OverflowError, s)" if "\<not> sql_int eid"
    using that by (simp add: cancel_event_def)
  from a c d show ?thesis
    by blast
qed

theorem cancel_event_result_witness:
  "sql_int 1 \<and> sql_int 5 \<and> \<not> sql_int 9223372036854775808 \<and>
   get_event demo_store 1 =
     Inr (Some \<lparr>ev_id = 1, date = ''01/01/2027'', time = ''18:00'', max_players = 2,
                description = '''', created_by = 99, created_at = 0, ev_status = Active\<rparr>) \<and>
   fst (cancel_event demo_store 1) = Inr True \<and>
   get_event (snd (cancel_event demo_store 1)) 1 =
     Inr (Some \<lparr>ev_id = 1, date = ''01/01/2027'', time = ''18:00'', max_players = 2,
                description = '''', created_by = 99, created_at = 0, ev_status = Cancelled\<rparr>) \<and>
   get_event demo_store 5 = Inr None \<and>
   fst (cancel_event demo_store 5) = Inr False \<and>
   cancel_event demo_store 9223372036854775808 = (Inl OverflowError, demo_store)"
proof -
  have r: "sql_int 1" "sql_int 5" "\<not> sql_int 9223372036854775808"
    by (simp_all add: sql_int_def)
  have h: "get_event demo_store 1 =
     Inr (Some \<lparr>ev_id = 1, date = ''01/01/2027'', time = ''18:00'', max_players = 2,
                description = '''', created_by = 99, created_at = 0, ev_status = Active\<rparr>)"
    "get_event demo_store 5 = Inr None"
    by code_simp+
  from cancel_event_result [of 1 demo_store] cancel_event_result [of 5 demo_store]
    cancel_event_result [of 9223372036854775808 demo_store] r h
  show ?thesis
    by simp
qed

subsection \<open>The frame of cancel_event\<close>

text \<open>
  C8. \<^verbatim>\<open>cancel_event\<close> leaves the registrations table and both counters as they were; the
  events table keeps its rows in place, every event with another id is identical to what it
  was, and every event differs from its old self in the status field at most. The
  registrations of any event, the cancelled one included, are returned by
  \<^verbatim>\<open>get_event_registrations\<close> and \<^verbatim>\<open>get_players_for_teams\<close> exactly as before.
\<close>

theorem cancel_event_frame:
  "registrations (snd (cancel_event s eid)) = registrations s \<and>
   events_seq (snd (cancel_event s eid)) = events_seq s \<and>
   registrations_seq (snd (cancel_event s eid)) = registrations_seq s \<and>
   list_all2 (\<lambda>e e'. (ev_id e \<noteq> eid \<longrightarrow> e' = e) \<and> e' = e\<lparr>ev_status := ev_status e'\<rparr>)
     (events s) (events (snd (cancel_event s eid))) \<and>
   get_event_registrations (snd (cancel_event s eid)) x = get_event_registrations s x \<and>
   get_players_for_teams (snd (cancel_event s eid)) x = get_players_for_teams s x"
proof -
  have m: "list_all2 (\<lambda>e e'. (ev_id e \<noteq> eid \<longrightarrow> e' = e) \<and> e' = e\<lparr>ev_status := ev_status e'\<rparr>)
     xs (map (\<lambda>e. if ev_id e = eid then e\<lparr>ev_status := Cancelled\<rparr> else e) xs)"
    for xs :: "event list"
    by (induction xs) simp_all
  have i: "list_all2 (\<lambda>e e'. (ev_id e \<noteq> eid \<longrightarrow> e' = e) \<and> e' = e\<lparr>ev_status := ev_status e'\<rparr>)
     xs xs"
    for xs :: "event list"
    by (induction xs) simp_all
  show ?thesis
  proof (cases "sql_int eid")
    case True
    with m show ?thesis
      by (simp add: cancel_event_def Let_def get_event_registrations_def
            get_players_for_teams_def)
  next
    case False
    with i show ?thesis
      by (simp add: cancel_event_def)
  qed
qed

theorem cancel_event_frame_witness:
  "registrations (snd (cancel_event demo_store 1)) = registrations demo_store \<and>
   list_all2 (\<lambda>e e'. (ev_id e \<noteq> 1 \<longrightarrow> e' = e) \<and> e' = e\<lparr>ev_status := ev_status e'\<rparr>)
     (events demo_store) (events (snd (cancel_event demo_store 1))) \<and>
   get_event_registrations (snd (cancel_event demo_store 1)) 1
     = get_event_registrations demo_store 1"
  using cancel_event_frame [of demo_store 1 1] by simp

subsection \<open>Joining a cancelled event\<close>







subsection \<open>The players handed to the team split\<close>

lemma py_or_rule:
  "py_or a b = (if a \<noteq> None \<and> a \<noteq> Some [] then the a else b)"
  by (cases a) simp_all

text \<open>
  C9, as stated, fails twice. The second main player of the demo store has the first name
  \<^verbatim>\<open>''\<close>, which is not absent, and the username \<^verbatim>\<open>bob\<close>: the claim's rule gives the display
  name \<^verbatim>\<open>''\<close>, the code's \<^verbatim>\<open>first_name or username or str(user_id)\<close> skips the empty text
  and gives \<^verbatim>\<open>bob\<close>. And for the event id \<open>2^63\<close> the call returns no list at all: binding
  the id raises \<^verbatim>\<open>OverflowError\<close>.
\<close>

theorem get_players_for_teams_counterexample:
  "get_players_for_teams demo_store 1 =
     Inr [\<lparr>p_user_id = 7, p_username = Some ''alice'', p_first_name = Some ''Alice'',
            display_name = ''Alice''\<rparr>,
          \<lparr>p_user_id = 8, p_username = Some ''bob'', p_first_name = Some '''',
            display_name = ''bob''\<rparr>] \<and>
   spec_display_name (Some '''') (Some ''bob'') 8 = '''' \<and>
   get_players_for_teams demo_store 9223372036854775808 = Inl OverflowError"
  by code_simp

text \<open>
  C9, amended. For an event id within the signed 64-bit range, \<^verbatim>\<open>get_players_for_teams\<close>
  returns one entry for each active main registration of the event and no other, in
  ascending order of \<^verbatim>\<open>registered_at\<close>; an entry's display name is its first name if that
  is neither absent nor empty, otherwise its username if that is neither absent nor empty,
  otherwise the user id as decimal text. For an id outside that range the call raises
  \<^verbatim>\<open>OverflowError\<close>.
\<close>

theorem get_players_for_teams_result:
  "(sql_int eid \<longrightarrow>
     (\<exists>rows. mset rows = mset (filter (typed_active eid MainList) (registrations s)) \<and>
        sorted (map registered_at rows) \<and>
        get_players_for_teams s eid =
          Inr (map (\<lambda>r. \<lparr>p_user_id = user_id r, p_username = username r,
                       p_first_name = first_name r,
                       display_name =
                         (if first_name r \<noteq> None \<and> first_name r \<noteq> Some ''''
                          then the (first_name r)
                          else if username r \<noteq> None \<and> username r \<noteq> Some ''''
                          then the (username r)
                          else str_int (user_id r))\<rparr>) rows))) \<and>
   (\<not> sql_int eid \<longrightarrow> get_players_for_teams s eid = Inl OverflowError)"
proof -
  let ?rows = "order_by registered_at
      (index_scan (filter (typed_active eid MainList) (registrations s)))"
  have "mset ?rows = mset (filter (typed_active eid MainList) (registrations s))"
    by (simp add: order_by_def index_scan_def)
  moreover have "sorted (map registered_at ?rows)"
    by (simp add: order_by_def)
  moreover have "get_players_for_teams s eid =
        Inr (map (\<lambda>r. \<lparr>p_user_id = user_id r, p_username = username r,
                       p_first_name = first_name r,
                       display_name =
                         (if first_name r \<noteq> None \<and> first_name r \<noteq> Some ''''
                          then the (first_name r)
                          else if username r \<noteq> None \<and> username r \<noteq> Some ''''
                          then the (username r)
                          else str_int (user_id r))\<rparr>) ?rows)"
    if "sql_int eid"
    using that by (simp add: get_players_for_teams_def player_of_def py_or_rule)
  moreover have "get_players_for_teams s eid = Inl OverflowError" if "\<not> sql_int eid"
    using that by (simp add: get_players_for_teams_def)
  ultimately show ?thesis
    by blast
qed

theorem get_players_for_teams_result_witness:
  "sql_int 1 \<and> \<not> sql_int 9223372036854775808 \<and>
   (case get_players_for_teams demo_store 1 of Inl e \<Rightarrow> 0 | Inr ps \<Rightarrow> length ps) = 2 \<and>
   get_players_for_teams demo_store 9223372036854775808 = Inl OverflowError"
proof -
  have r: "sql_int 1" "\<not> sql_int 9223372036854775808"
    by (simp_all add: sql_int_def)
  from get_players_for_teams_result [of 1 demo_store] r(1)
  obtain rows
    where m: "mset rows = mset (filter (typed_active 1 MainList) (registrations demo_store))"
    and g: "get_players_for_teams demo_store 1 =
          Inr (map (\<lambda>r. \<lparr>p_user_id = user_id r, p_username = username r,
                       p_first_name = first_name r,
                       display_name =
                         (if first_name r \<noteq> None \<and> first_name r \<noteq> Some ''''
                          then the (first_name r)
                          else if username r \<noteq> None \<and> username r \<noteq> Some ''''
                          then the (username r)
                          else str_int (user_id r))\<rparr>) rows)"
    by blast
  from m have "length rows = length (filter (typed_active 1 MainList) (registrations demo_store))"
    by (rule mset_eq_length)
  also have "\<dots> = 2"
    by code_simp
  finally have "(case get_players_for_teams demo_store 1 of Inl e \<Rightarrow> 0 | Inr ps \<Rightarrow> length ps) = 2"
    by (simp add: g)
  moreover from get_players_for_teams_result [of 9223372036854775808 demo_store] r(2)
  have "get_players_for_teams demo_store 9223372036854775808 = Inl OverflowError"
    by blast
  ultimately show ?thesis
    using r by blast
qed

section \<open>The capacity invariant\<close>

subsection \<open>Counting rows under an update\<close>

lemma filter_map_le:
  "(\<And>x. x \<in> set xs \<Longrightarrow> P (f x) \<Longrightarrow> P x) \<Longrightarrow>
     length (filter P (map f xs)) \<le> length (filter P xs)"
  by (induction xs) auto

lemma filter_map_less:
  "(\<And>x. x \<in> set xs \<Longrightarrow> P (f x) \<Longrightarrow> P x) \<Longrightarrow> r \<in> set xs \<Longrightarrow> P r \<Longrightarrow> \<not> P (f r) \<Longrightarrow>
     length (filter P (map f xs)) < length (filter P xs)"
proof (induction xs)
  case Nil
  then show ?case by simp
next
  case (Cons a xs)
  have le: "length (filter P (map f xs)) \<le> length (filter P xs)"
    using Cons.prems(1) by (intro filter_map_le) simp_all
  show ?case
  proof (cases "a = r")
    case True
    with Cons.prems le show ?thesis by simp
  next
    case False
    with Cons.prems have "r \<in> set xs" by simp
    with Cons have "length (filter P (map f xs)) < length (filter P xs)" by simp
    with Cons.prems(1) [of a] show ?thesis by auto
  qed
qed

lemma filter_map_add:
  "(\<And>x. x \<in> set xs \<Longrightarrow> P (f x) \<Longrightarrow> P x \<or> Q x) \<Longrightarrow>
     length (filter P (map f xs)) \<le> length (filter P xs) + length (filter Q xs)"
  by (induction xs) auto

lemma distinct_key_filter:
  "distinct (map k xs) \<Longrightarrow> length (filter (\<lambda>x. k x = v) xs) \<le> 1"
proof (induction xs)
  case Nil
  then show ?case by simp
next
  case (Cons a xs)
  show ?case
  proof (cases "k a = v")
    case True
    with Cons.prems have "filter (\<lambda>x. k x = v) xs = []"
      by (auto simp add: filter_empty_conv image_iff)
    with True show ?thesis by simp
  next
    case False
    with Cons show ?thesis by simp
  qed
qed

lemma filter_mono_length:
  "(\<And>x. x \<in> set xs \<Longrightarrow> P x \<Longrightarrow> Q x) \<Longrightarrow> length (filter P xs) \<le> length (filter Q xs)"
  by (induction xs) auto

lemma order_by_empty [simp]: "order_by k xs = [] \<longleftrightarrow> xs = []"
proof -
  have "length (order_by k xs) = length xs"
    by (simp add: order_by_def)
  then show ?thesis
    by (cases xs) auto
qed

lemma set_index_scan [simp]: "set (index_scan xs) = set xs"
  by (simp add: index_scan_def)

lemma index_scan_empty [simp]: "index_scan xs = [] \<longleftrightarrow> xs = []"
proof -
  have "length (index_scan xs) = length xs"
    by (simp add: index_scan_def)
  then show ?thesis
    by (cases xs) auto
qed

subsection \<open>The updates of unregister_user\<close>

lemma set_cancelled_key [simp]:
  "event_id (set_cancelled eid uid r) = event_id r"
  "user_id (set_cancelled eid uid r) = user_id r"
  "registration_type (set_cancelled eid uid r) = registration_type r"
  by (simp_all add: set_cancelled_def)

lemma set_main_key [simp]:
  "event_id (set_main eid uid r) = event_id r"
  "user_id (set_main eid uid r) = user_id r"
  "reg_status (set_main eid uid r) = reg_status r"
  by (simp_all add: set_main_def)

lemma typed_active_set_cancelled:
  "typed_active e t (set_cancelled eid uid r) \<Longrightarrow> typed_active e t r"
  by (auto simp add: typed_active_def set_cancelled_def split: if_splits)

lemma typed_active_set_main:
  "typed_active e MainList (set_main eid nu r) \<Longrightarrow> typed_active e MainList r \<or> (e = eid \<and> user_active eid nu r)"
  by (auto simp add: typed_active_def set_main_def user_active_def split: if_splits)

lemma user_active_count:
  assumes "distinct (map (\<lambda>r. (event_id r, user_id r)) xs)"
  shows "length (filter (user_active eid uid) xs) \<le> 1"
proof -
  have "length (filter (user_active eid uid) xs)
      \<le> length (filter (\<lambda>r. (event_id r, user_id r) = (eid, uid)) xs)"
    by (rule filter_mono_length) (simp add: user_active_def)
  also have "\<dots> \<le> 1"
    using assms by (rule distinct_key_filter)
  finally show ?thesis .
qed

text \<open>The rows \<^verbatim>\<open>unregister_user\<close> leaves, as a function of the old rows.\<close>

lemma unregister_user_rows:
  "\<exists>regs2. snd (unregister_user s eid uid) = s\<lparr>registrations := regs2\<rparr> \<and>
    map (\<lambda>r. (event_id r, user_id r)) regs2 = map (\<lambda>r. (event_id r, user_id r)) (registrations s) \<and>
    (distinct (map (\<lambda>r. (event_id r, user_id r)) (registrations s)) \<longrightarrow>
       (\<forall>e. length (filter (typed_active e MainList) regs2)
           \<le> length (filter (typed_active e MainList) (registrations s))))"
proof (cases "sql_int eid \<and> sql_int uid")
  case False
  then have "snd (unregister_user s eid uid) = s"
    by (simp add: unregister_user_def)
  then show ?thesis
    by (intro exI [of _ "registrations s"]) simp
next
  case ids: True
  show ?thesis
  proof (cases "filter (user_active eid uid) (registrations s)")
    case Nil
    with ids have "snd (unregister_user s eid uid) = s"
      by (simp add: unregister_user_def)
    then show ?thesis
      by (intro exI [of _ "registrations s"]) simp
  next
    case (Cons r rs)
    let ?regs = "registrations s"
    let ?regs1 = "map (set_cancelled eid uid) ?regs"
    have "r \<in> set (filter (user_active eid uid) ?regs)"
      by (simp add: Cons)
    then have r_in: "r \<in> set ?regs" and r_act: "user_active eid uid r"
      by simp_all
    have le1: "length (filter (typed_active e MainList) ?regs1)
        \<le> length (filter (typed_active e MainList) ?regs)" for e
      by (rule filter_map_le) (rule typed_active_set_cancelled)
    show ?thesis
    proof (cases "registration_type r = MainList \<and>
        filter (typed_active eid Reserve) ?regs1 \<noteq> []")
      case False
      with ids have u: "snd (unregister_user s eid uid) = s\<lparr>registrations := ?regs1\<rparr>"
        by (auto simp add: unregister_user_def Cons Let_def order_by_def index_scan_def)
      show ?thesis
        using u le1 by (intro exI [of _ ?regs1]) (simp add: comp_def)
    next
      case True
      then obtain p ps where
        srt: "order_by registered_at (index_scan (filter (typed_active eid Reserve) ?regs1))
          = p # ps"
        by (cases "order_by registered_at
              (index_scan (filter (typed_active eid Reserve) ?regs1))")
           simp_all
      let ?regs2 = "map (set_main eid (user_id p)) ?regs1"
      have u: "snd (unregister_user s eid uid) = s\<lparr>registrations := ?regs2\<rparr>"
        using True ids by (simp add: unregister_user_def Cons Let_def srt)
      have cnt: "length (filter (typed_active e MainList) ?regs2)
          \<le> length (filter (typed_active e MainList) ?regs)"
        if d: "distinct (map (\<lambda>r. (event_id r, user_id r)) ?regs)" for e
      proof (cases "e = eid")
        case False
        have "length (filter (typed_active e MainList) ?regs2)
            \<le> length (filter (typed_active e MainList) ?regs1)"
          using False by (intro filter_map_le) (auto dest: typed_active_set_main)
        with le1 [of e] show ?thesis by simp
      next
        case e: True
        have "typed_active eid MainList r"
          using r_act True by (simp add: typed_active_def user_active_def)
        moreover have "\<not> typed_active eid MainList (set_cancelled eid uid r)"
          using r_act by (simp add: typed_active_def set_cancelled_def)
        ultimately have lt: "length (filter (typed_active eid MainList) ?regs1)
            < length (filter (typed_active eid MainList) ?regs)"
          using r_in
          by (intro filter_map_less [where r = r]) (auto dest: typed_active_set_cancelled)
        have "length (filter (typed_active eid MainList) ?regs2)
            \<le> length (filter (typed_active eid MainList) ?regs1)
              + length (filter (user_active eid (user_id p)) ?regs1)"
          by (rule filter_map_add) (auto dest: typed_active_set_main)
        also have "length (filter (user_active eid (user_id p)) ?regs1) \<le> 1"
          using d by (intro user_active_count) (simp add: comp_def)
        finally show ?thesis
          using lt e by simp
      qed
      show ?thesis
        using u cnt by (intro exI [of _ ?regs2]) (simp add: comp_def)
    qed
  qed
qed

subsection \<open>The table constraints and the capacity bound are kept\<close>

lemma store_ok_init: "store_ok init_database"
  by (simp add: store_ok_def events_keyed_def reg_unique_def regs_storable_def regs_refer_def
        capacity_ok_def init_database_def)

lemma regs_storable_keys:
  "regs_storable s \<longleftrightarrow>
     list_all (\<lambda>k. sql_int (fst k) \<and> sql_int (snd k))
       (map (\<lambda>r. (event_id r, user_id r)) (registrations s))"
  by (simp add: regs_storable_def list_all_iff)

lemma store_ok_create_event:
  assumes ok: "store_ok s" and mp: "0 \<le> mp"
  shows "store_ok (snd (create_event s d t mp cb descr now))"
proof (cases "snd (create_event s d t mp cb descr now) = s")
  case True
  with ok show ?thesis by simp
next
  case False
  let ?i = "events_seq s + 1"
  define row where "row = \<lparr>ev_id = ?i, date = d, time = t, max_players = mp,
     description = descr, created_by = cb, created_at = now, ev_status = Active\<rparr>"
  from False have s': "snd (create_event s d t mp cb descr now)
      = s\<lparr>events := events s @ [row], events_seq := ?i\<rparr>"
    by (simp add: create_event_def Let_def row_def split: if_splits)
  from ok have ids: "\<forall>e\<in>set (events s). ev_id e \<le> events_seq s"
    and refs: "\<forall>r\<in>set (registrations s). event_id r \<in> ev_id ` set (events s)"
    by (simp_all add: store_ok_def events_keyed_def regs_refer_def list_all_iff)
  then have fresh: "?i \<notin> ev_id ` set (events s)"
    by fastforce
  with refs have "\<forall>r\<in>set (registrations s). event_id r \<noteq> ?i"
    by metis
  then have "filter (typed_active ?i MainList) (registrations s) = []"
    by (simp add: filter_empty_conv typed_active_def)
  then have new: "main_count s ?i = 0"
    by (simp add: main_count_def)
  have mc: "main_count (s\<lparr>events := events s @ [row], events_seq := ?i\<rparr>) e = main_count s e"
    for e
    by (simp add: main_count_def)
  have "events_keyed (s\<lparr>events := events s @ [row], events_seq := ?i\<rparr>)"
    using ok fresh ids
    by (auto simp add: store_ok_def events_keyed_def row_def list_all_iff)
  moreover have "reg_unique (s\<lparr>events := events s @ [row], events_seq := ?i\<rparr>)"
    using ok by (simp add: store_ok_def reg_unique_def)
  moreover have "regs_storable (s\<lparr>events := events s @ [row], events_seq := ?i\<rparr>)"
    using ok by (simp add: store_ok_def regs_storable_def)
  moreover have "regs_refer (s\<lparr>events := events s @ [row], events_seq := ?i\<rparr>)"
    using refs by (auto simp add: regs_refer_def list_all_iff)
  moreover have "capacity_ok (s\<lparr>events := events s @ [row], events_seq := ?i\<rparr>)"
    using ok mp new
    by (simp add: store_ok_def capacity_ok_def mc list_all_iff)
       (simp add: row_def)
  ultimately show ?thesis
    by (simp add: store_ok_def s')
qed

lemma max_players_of_id:
  "fetchone (map max_players (filter (\<lambda>e. ev_id e = eid) evs)) = Some mp \<Longrightarrow>
   distinct (map ev_id evs) \<Longrightarrow> e \<in> set evs \<Longrightarrow> ev_id e = eid \<Longrightarrow> max_players e = mp"
  by (induction evs) (auto split: if_splits simp add: image_iff)

lemma store_ok_register_user:
  assumes ok: "store_ok s"
  shows "store_ok (snd (register_user s eid uid un fn now))"
proof (cases "snd (register_user s eid uid un fn now) = s")
  case True
  with ok show ?thesis by simp
next
  case False
  let ?n = "length (filter (typed_active eid MainList) (registrations s))"
  from False obtain mp where
    mp: "fetchone (map max_players (filter (\<lambda>e. ev_id e = eid) (events s))) = Some mp"
    and nr: "filter (\<lambda>r. event_id r = eid \<and> user_id r = uid) (registrations s) = []"
    and ids: "sql_int eid" "sql_int uid"
    and room: "\<not> max_rowid \<le> registrations_seq s"
    by (auto simp add: register_user_def insert_registration_def Let_def
          split: option.splits if_splits)
  define rt where "rt = (if int ?n < mp then MainList else Reserve)"
  define row where "row = \<lparr>reg_id = registrations_seq s + 1, event_id = eid, user_id = uid,
     username = un, first_name = fn, registration_type = rt, registered_at = now,
     reg_status = Active\<rparr>"
  have s': "snd (register_user s eid uid un fn now)
      = s\<lparr>registrations := registrations s @ [row], registrations_seq := registrations_seq s + 1\<rparr>"
    using False mp nr ids room
    by (auto simp add: register_user_def insert_registration_def Let_def row_def rt_def
          split: option.splits)
  from mp have known: "eid \<in> ev_id ` set (events s)"
    by (cases "filter (\<lambda>e. ev_id e = eid) (events s)")
       (auto simp add: filter_eq_Cons_iff)
  have "events_keyed (s\<lparr>registrations := registrations s @ [row],
      registrations_seq := registrations_seq s + 1\<rparr>)"
    using ok by (simp add: store_ok_def events_keyed_def)
  moreover have "reg_unique (s\<lparr>registrations := registrations s @ [row],
      registrations_seq := registrations_seq s + 1\<rparr>)"
    using ok nr by (auto simp add: store_ok_def reg_unique_def row_def filter_empty_conv)
  moreover have "regs_storable (s\<lparr>registrations := registrations s @ [row],
      registrations_seq := registrations_seq s + 1\<rparr>)"
    using ok ids by (simp add: store_ok_def regs_storable_def row_def)
  moreover have "regs_refer (s\<lparr>registrations := registrations s @ [row],
      registrations_seq := registrations_seq s + 1\<rparr>)"
    using ok known by (simp add: store_ok_def regs_refer_def row_def)
  moreover have "capacity_ok (s\<lparr>registrations := registrations s @ [row],
      registrations_seq := registrations_seq s + 1\<rparr>)"
    unfolding capacity_ok_def list_all_iff
  proof
    fix e
    assume e: "e \<in> set (events (s\<lparr>registrations := registrations s @ [row],
      registrations_seq := registrations_seq s + 1\<rparr>))"
    then have old: "int (main_count s (ev_id e)) \<le> max_players e"
      using ok by (simp add: store_ok_def capacity_ok_def list_all_iff)
    show "int (main_count (s\<lparr>registrations := registrations s @ [row],
      registrations_seq := registrations_seq s + 1\<rparr>) (ev_id e)) \<le> max_players e"
    proof (cases "ev_id e = eid \<and> rt = MainList")
      case False
      then have "\<not> typed_active (ev_id e) MainList row"
        by (auto simp add: typed_active_def row_def)
      with old show ?thesis
        by (simp add: main_count_def)
    next
      case True
      with e ok mp have "max_players e = mp"
        by (intro max_players_of_id [where evs = "events s" and eid = eid])
           (simp_all add: store_ok_def events_keyed_def)
      moreover from True have "int ?n < mp"
        by (simp add: rt_def split: if_splits)
      ultimately show ?thesis
        using True by (simp add: main_count_def typed_active_def row_def)
    qed
  qed
  ultimately show ?thesis
    by (simp add: store_ok_def s')
qed

lemma store_ok_unregister_user:
  assumes ok: "store_ok s"
  shows "store_ok (snd (unregister_user s eid uid))"
proof -
  from unregister_user_rows [of s eid uid] obtain regs2 where
    u: "snd (unregister_user s eid uid) = s\<lparr>registrations := regs2\<rparr>"
    and k: "map (\<lambda>r. (event_id r, user_id r)) regs2
        = map (\<lambda>r. (event_id r, user_id r)) (registrations s)"
    and c: "distinct (map (\<lambda>r. (event_id r, user_id r)) (registrations s)) \<longrightarrow>
       (\<forall>e. length (filter (typed_active e MainList) regs2)
           \<le> length (filter (typed_active e MainList) (registrations s)))"
    by auto
  from k have "map fst (map (\<lambda>r. (event_id r, user_id r)) regs2)
        = map fst (map (\<lambda>r. (event_id r, user_id r)) (registrations s))"
    by simp
  then have "map event_id regs2 = map event_id (registrations s)"
    by (simp add: comp_def)
  then have ev: "event_id ` set regs2 = event_id ` set (registrations s)"
    by (metis set_map)
  have "events_keyed (s\<lparr>registrations := regs2\<rparr>)"
    using ok by (simp add: store_ok_def events_keyed_def)
  moreover have "reg_unique (s\<lparr>registrations := regs2\<rparr>)"
    using ok k by (simp add: store_ok_def reg_unique_def)
  moreover have "regs_storable (s\<lparr>registrations := regs2\<rparr>)"
    using ok k by (simp add: store_ok_def regs_storable_keys)
  moreover have "regs_refer (s\<lparr>registrations := regs2\<rparr>)"
  proof -
    from ok have refs: "\<forall>r\<in>set (registrations s). event_id r \<in> ev_id ` set (events s)"
      by (simp add: store_ok_def regs_refer_def list_all_iff)
    have "event_id r \<in> ev_id ` set (events s)" if "r \<in> set regs2" for r
    proof -
      from that ev have "event_id r \<in> event_id ` set (registrations s)"
        by blast
      with refs show ?thesis
        by auto
    qed
    then show ?thesis
      by (simp add: regs_refer_def list_all_iff)
  qed
  moreover have "capacity_ok (s\<lparr>registrations := regs2\<rparr>)"
  proof -
    from ok c have le: "length (filter (typed_active e MainList) regs2)
           \<le> length (filter (typed_active e MainList) (registrations s))" for e
      by (simp add: store_ok_def reg_unique_def)
    have "int (main_count (s\<lparr>registrations := regs2\<rparr>) (ev_id e)) \<le> max_players e"
      if "e \<in> set (events s)" for e
    proof -
      from ok that have "int (main_count s (ev_id e)) \<le> max_players e"
        by (simp add: store_ok_def capacity_ok_def list_all_iff)
      with le [of "ev_id e"] show ?thesis
        by (simp add: main_count_def)
    qed
    then show ?thesis
      by (simp add: capacity_ok_def list_all_iff)
  qed
  ultimately show ?thesis
    by (simp add: store_ok_def u)
qed

lemma store_ok_cancel_event:
  assumes ok: "store_ok s"
  shows "store_ok (snd (cancel_event s eid))"
proof (cases "sql_int eid")
  case False
  with ok show ?thesis
    by (simp add: cancel_event_def)
next
  case True
  define f where "f = (\<lambda>e::event. if ev_id e = eid then e\<lparr>ev_status := Cancelled\<rparr> else e)"
  have f [simp]: "ev_id (f e) = ev_id e" "max_players (f e) = max_players e" for e
    by (simp_all add: f_def)
  have s': "snd (cancel_event s eid) = s\<lparr>events := map f (events s)\<rparr>"
    using True by (simp add: cancel_event_def Let_def f_def)
  have mc: "main_count (s\<lparr>events := map f (events s)\<rparr>) e = main_count s e" for e
    by (simp add: main_count_def)
  have "events_keyed (s\<lparr>events := map f (events s)\<rparr>)"
    using ok by (simp add: store_ok_def events_keyed_def list_all_iff comp_def)
  moreover have "reg_unique (s\<lparr>events := map f (events s)\<rparr>)"
    using ok by (simp add: store_ok_def reg_unique_def)
  moreover have "regs_storable (s\<lparr>events := map f (events s)\<rparr>)"
    using ok by (simp add: store_ok_def regs_storable_def)
  moreover have "regs_refer (s\<lparr>events := map f (events s)\<rparr>)"
    using ok by (simp add: store_ok_def regs_refer_def image_image)
  moreover have "capacity_ok (s\<lparr>events := map f (events s)\<rparr>)"
    using ok by (simp add: store_ok_def capacity_ok_def mc list_all_iff)
  ultimately show ?thesis
    by (simp add: store_ok_def s')
qed

lemma store_ok_step: "store_ok s \<Longrightarrow> valid_op x \<Longrightarrow> store_ok (step s x)"
  by (cases x)
     (simp_all add: store_ok_create_event store_ok_register_user store_ok_unregister_user
        store_ok_cancel_event)

lemma store_ok_run: "list_all valid_op ops \<Longrightarrow> store_ok (run ops)"
  unfolding run_def
  by (induction ops rule: rev_induct) (simp_all add: store_ok_init store_ok_step)

text \<open>
  C2. In every store reached from the empty database by any sequence of \<^verbatim>\<open>create_event\<close>
  (with the \<^verbatim>\<open>max_players\<close> the command layer lets through), \<^verbatim>\<open>register_user\<close>,
  \<^verbatim>\<open>unregister_user\<close> and \<^verbatim>\<open>cancel_event\<close> calls, every event has at most
  \<^verbatim>\<open>max_players\<close> active main registrations, and the store after one more
  \<^verbatim>\<open>register_user\<close>, \<^verbatim>\<open>unregister_user\<close> or \<^verbatim>\<open>cancel_event\<close> call satisfies the bound
  again. More generally the bound together with the table constraints (\<open>store_ok\<close>) is
  kept by each of the three operations from any store that satisfies them.
\<close>

theorem capacity_invariant:
  "(list_all valid_op ops \<longrightarrow>
      (\<forall>e\<in>set (events (run ops)). int (main_count (run ops) (ev_id e)) \<le> max_players e) \<and>
      capacity_ok (snd (register_user (run ops) eid uid un fn now)) \<and>
      capacity_ok (snd (unregister_user (run ops) eid uid)) \<and>
      capacity_ok (snd (cancel_event (run ops) eid))) \<and>
   (store_ok s \<longrightarrow>
      capacity_ok s \<and>
      store_ok (snd (register_user s eid uid un fn now)) \<and>
      store_ok (snd (unregister_user s eid uid)) \<and>
      store_ok (snd (cancel_event s eid)))"
proof -
  have reach: "(\<forall>e\<in>set (events (run ops)). int (main_count (run ops) (ev_id e)) \<le> max_players e) \<and>
      capacity_ok (snd (register_user (run ops) eid uid un fn now)) \<and>
      capacity_ok (snd (unregister_user (run ops) eid uid)) \<and>
      capacity_ok (snd (cancel_event (run ops) eid))"
    if "list_all valid_op ops"
  proof -
    from that have ok: "store_ok (run ops)"
      by (rule store_ok_run)
    then have "capacity_ok (run ops)"
      by (simp add: store_ok_def)
    then have "\<forall>e\<in>set (events (run ops)).
        int (main_count (run ops) (ev_id e)) \<le> max_players e"
      by (simp add: capacity_ok_def list_all_iff)
    moreover from ok have "capacity_ok (snd (register_user (run ops) eid uid un fn now))"
      using store_ok_register_user store_ok_def by blast
    moreover from ok have "capacity_ok (snd (unregister_user (run ops) eid uid))"
      using store_ok_unregister_user store_ok_def by blast
    moreover from ok have "capacity_ok (snd (cancel_event (run ops) eid))"
      using store_ok_cancel_event store_ok_def by blast
    ultimately show ?thesis
      by blast
  qed
  have keep: "capacity_ok s \<and>
      store_ok (snd (register_user s eid uid un fn now)) \<and>
      store_ok (snd (unregister_user s eid uid)) \<and>
      store_ok (snd (cancel_event s eid))"
    if "store_ok s"
    using that
    by (simp add: store_ok_register_user store_ok_unregister_user store_ok_cancel_event)
       (simp add: store_ok_def)
  from reach keep show ?thesis
    by blast
qed

theorem capacity_invariant_witness:
  "list_all valid_op demo_ops \<and> store_ok demo_store \<and>
   map max_players (events (run demo_ops)) = [2] \<and>
   main_count (run demo_ops) 1 = 2 \<and>
   capacity_ok (snd (register_user (run demo_ops) 1 5 None None 40)) \<and>
   capacity_ok (snd (unregister_user (run demo_ops) 1 7)) \<and>
   main_count (snd (unregister_user (run demo_ops) 1 7)) 1 = 2 \<and>
   capacity_ok (snd (cancel_event (run demo_ops) 1)) \<and>
   store_ok (snd (unregister_user demo_store 1 7))"
proof -
  have h: "list_all valid_op demo_ops"
    by code_simp
  have k: "store_ok demo_store"
    by code_simp
  have c: "map max_players (events (run demo_ops)) = [2]" "main_count (run demo_ops) 1 = 2"
    "main_count (snd (unregister_user (run demo_ops) 1 7)) 1 = 2"
    by code_simp+
  from capacity_invariant [where ops = demo_ops and eid = 1 and uid = 5 and un = None
      and fn = None and now = 40]
    capacity_invariant [where ops = demo_ops and s = demo_store and eid = 1 and uid = 7]
    h k c
  show ?thesis
    by blast
qed

section \<open>Promotion from the reserve list\<close>

lemma filter_map_fixed:
  "(\<And>x. x \<in> set xs \<Longrightarrow> (P (g x) \<longleftrightarrow> P x) \<and> (P x \<longrightarrow> g x = x)) \<Longrightarrow>
     filter P (map g xs) = filter P xs"
  by (induction xs) auto

lemma order_by_head:
  assumes "order_by k xs = p # ps"
  shows "p \<in> set xs \<and> (\<forall>q\<in>set xs. k p \<le> k q)"
proof -
  have "set (order_by k xs) = set xs"
    by (simp add: order_by_def)
  with assms have s: "set xs = insert p (set ps)"
    by simp
  have "sorted (map k (order_by k xs))"
    by (simp add: order_by_def)
  with assms have "\<forall>q\<in>set ps. k p \<le> k q"
    by simp
  with s show ?thesis
    by auto
qed

lemma unique_row:
  "reg_unique s \<Longrightarrow> x \<in> set (registrations s) \<Longrightarrow> y \<in> set (registrations s) \<Longrightarrow>
     event_id x = event_id y \<Longrightarrow> user_id x = user_id y \<Longrightarrow> x = y"
  unfolding reg_unique_def distinct_map
  by (auto dest: inj_onD [where x = x and y = y])

lemma unregister_main:
  assumes uq: "reg_unique s" and st: "regs_storable s"
    and r: "fetchone (filter (user_active eid uid) (registrations s)) = Some r"
    and m: "registration_type r = MainList"
  shows "if filter (typed_active eid Reserve) (registrations s) = []
      then unregister_user s eid uid =
        (Inr True, s\<lparr>registrations :=
           map (\<lambda>x. if x = r then r\<lparr>reg_status := Cancelled\<rparr> else x) (registrations s)\<rparr>)
      else \<exists>p\<in>set (filter (typed_active eid Reserve) (registrations s)).
        (\<forall>q\<in>set (filter (typed_active eid Reserve) (registrations s)).
           registered_at p \<le> registered_at q) \<and>
        unregister_user s eid uid =
          (Inr True, s\<lparr>registrations :=
             map (\<lambda>x. if x = r then r\<lparr>reg_status := Cancelled\<rparr>
                      else if x = p then p\<lparr>registration_type := MainList\<rparr> else x)
               (registrations s)\<rparr>)"
proof -
  let ?regs = "registrations s"
  define g where "g = (\<lambda>x. if x = r then r\<lparr>reg_status := Cancelled\<rparr> else x)"
  let ?R = "filter (typed_active eid Reserve) ?regs"
  from r obtain rs where rs: "filter (user_active eid uid) ?regs = r # rs"
    by (auto simp add: fetchone_Some)
  then have "r \<in> set (filter (user_active eid uid) ?regs)"
    by simp
  then have r_in: "r \<in> set ?regs" and r_act: "user_active eid uid r"
    by simp_all
  from stored_ids [OF st r_in] r_act have ids: "sql_int eid \<and> sql_int uid"
    by (simp add: user_active_def)
  have only_r: "x = r" if "x \<in> set ?regs" "user_active eid uid x" for x
  proof (rule unique_row [OF uq that(1) r_in])
    show "event_id x = event_id r" "user_id x = user_id r"
      using that(2) r_act by (simp_all add: user_active_def)
  qed
  have gx: "set_cancelled eid uid x = g x" if "x \<in> set ?regs" for x
  proof (cases "user_active eid uid x")
    case True
    with that have "x = r" by (rule only_r)
    with True show ?thesis by (simp add: set_cancelled_def g_def)
  next
    case False
    with r_act have "x \<noteq> r" by blast
    with False show ?thesis by (simp add: set_cancelled_def g_def)
  qed
  then have g: "map (set_cancelled eid uid) ?regs = map g ?regs"
    by simp
  have gR: "(typed_active eid Reserve (g x) \<longleftrightarrow> typed_active eid Reserve x) \<and>
      (typed_active eid Reserve x \<longrightarrow> g x = x)" for x
    using m by (cases "x = r") (simp_all add: g_def typed_active_def)
  have R: "filter (typed_active eid Reserve) (map g ?regs) = ?R"
    by (rule filter_map_fixed) (rule gR)
  have ty: "fetchone (map registration_type (filter (user_active eid uid) ?regs)) = Some MainList"
    by (simp add: rs m)
  have u: "unregister_user s eid uid =
      (Inr True, s\<lparr>registrations :=
         (case fetchone (map user_id (order_by registered_at (index_scan ?R))) of
            None \<Rightarrow> map g ?regs
          | Some next_user \<Rightarrow> map (set_main eid next_user) (map g ?regs))\<rparr>)"
    unfolding unregister_user_def ty Let_def g R using ids by simp
  show ?thesis
  proof (cases "?R = []")
    case True
    with u show ?thesis
      by (simp add: order_by_def index_scan_def g_def)
  next
    case False
    then obtain p ps where srt: "order_by registered_at (index_scan ?R) = p # ps"
      by (cases "order_by registered_at (index_scan ?R)") simp_all
    from order_by_head [OF srt]
    have p_in: "p \<in> set ?R" and p_min: "\<forall>q\<in>set ?R. registered_at p \<le> registered_at q"
      by simp_all
    from p_in have p_regs: "p \<in> set ?regs" and p_res: "typed_active eid Reserve p"
      by simp_all
    from p_res m have pr: "p \<noteq> r"
      by (auto simp add: typed_active_def)
    from p_res have p_act: "user_active eid (user_id p) p"
      by (simp add: user_active_def typed_active_def)
    have only_p: "x = p" if "x \<in> set ?regs" "user_active eid (user_id p) x" for x
    proof (rule unique_row [OF uq that(1) p_regs])
      show "event_id x = event_id p" "user_id x = user_id p"
        using that(2) p_act by (simp_all add: user_active_def)
    qed
    have hx: "set_main eid (user_id p) (g x)
        = (if x = r then r\<lparr>reg_status := Cancelled\<rparr>
           else if x = p then p\<lparr>registration_type := MainList\<rparr> else x)"
      if "x \<in> set ?regs" for x
    proof (cases "x = r")
      case True
      then show ?thesis by (simp add: g_def set_main_def user_active_def)
    next
      case xr: False
      show ?thesis
      proof (cases "x = p")
        case True
        with pr p_act show ?thesis by (simp add: g_def set_main_def)
      next
        case False
        with that only_p have "\<not> user_active eid (user_id p) x" by blast
        with xr False show ?thesis by (simp add: g_def set_main_def)
      qed
    qed
    then have h: "map (set_main eid (user_id p)) (map g ?regs)
        = map (\<lambda>x. if x = r then r\<lparr>reg_status := Cancelled\<rparr>
                   else if x = p then p\<lparr>registration_type := MainList\<rparr> else x) ?regs"
      by simp
    from u have "unregister_user s eid uid =
          (Inr True, s\<lparr>registrations := map (set_main eid (user_id p)) (map g ?regs)\<rparr>)"
      by (simp add: srt del: map_map)
    then have "unregister_user s eid uid =
          (Inr True, s\<lparr>registrations :=
             map (\<lambda>x. if x = r then r\<lparr>reg_status := Cancelled\<rparr>
                      else if x = p then p\<lparr>registration_type := MainList\<rparr> else x) ?regs\<rparr>)"
      by (simp only: h)
    with p_in p_min False show ?thesis
      by (simp only: if_False) blast
  qed
qed

lemma type_changes_map:
  "type_changes xs (map h xs)
     = length (filter (\<lambda>x. registration_type x \<noteq> registration_type (h x)) xs)"
  unfolding type_changes_def by (induction xs) simp_all

lemma type_changes_same_types:
  "map registration_type new = map registration_type old \<Longrightarrow> type_changes old new = 0"
proof -
  assume eq: "map registration_type new = map registration_type old"
  then have len: "length new = length old"
    by (rule map_eq_imp_length_eq)
  have "registration_type x = registration_type y" if "(x, y) \<in> set (zip old new)" for x y
  proof -
    from that obtain i where "i < length old" "i < length new" "x = old ! i" "y = new ! i"
      by (auto simp add: set_zip)
    with eq show ?thesis
      by (metis nth_map)
  qed
  then show ?thesis
    by (auto simp add: type_changes_def filter_empty_conv)
qed

lemma length_filter_eq_one:
  "distinct xs \<Longrightarrow> p \<in> set xs \<Longrightarrow> length (filter (\<lambda>x. x = p) xs) = 1"
  by (induction xs) (auto simp add: filter_empty_conv)

lemma unregister_main_changes:
  assumes uq: "reg_unique s" and st: "regs_storable s"
    and r: "fetchone (filter (user_active eid uid) (registrations s)) = Some r"
    and m: "registration_type r = MainList"
  shows "type_changes (registrations s) (registrations (snd (unregister_user s eid uid)))
      = (if filter (typed_active eid Reserve) (registrations s) = [] then 0 else 1)"
proof (cases "filter (typed_active eid Reserve) (registrations s) = []")
  case True
  with unregister_main [OF uq st r m]
  have "registrations (snd (unregister_user s eid uid))
      = map (\<lambda>x. if x = r then r\<lparr>reg_status := Cancelled\<rparr> else x) (registrations s)"
    by simp
  then have "map registration_type (registrations (snd (unregister_user s eid uid)))
      = map registration_type (registrations s)"
    by (simp add: comp_def if_distrib cong: if_cong)
  with True show ?thesis
    by (simp add: type_changes_same_types)
next
  case False
  with unregister_main [OF uq st r m] obtain p where
    p: "p \<in> set (filter (typed_active eid Reserve) (registrations s))"
    and u: "unregister_user s eid uid =
          (Inr True, s\<lparr>registrations :=
             map (\<lambda>x. if x = r then r\<lparr>reg_status := Cancelled\<rparr>
                      else if x = p then p\<lparr>registration_type := MainList\<rparr> else x)
               (registrations s)\<rparr>)"
    by (simp only: if_False) blast
  from p have p_in: "p \<in> set (registrations s)" and pt: "registration_type p = Reserve"
    by (simp_all add: typed_active_def)
  from uq have d: "distinct (registrations s)"
    by (simp add: reg_unique_def distinct_map)
  define h where "h = (\<lambda>x. if x = r then r\<lparr>reg_status := Cancelled\<rparr>
            else if x = p then p\<lparr>registration_type := MainList\<rparr> else x)"
  from u have regs': "registrations (snd (unregister_user s eid uid)) = map h (registrations s)"
    by (simp add: h_def)
  have "(registration_type x \<noteq> registration_type (h x)) \<longleftrightarrow> x = p" for x
    using pt m by (cases "x = r"; cases "x = p") (auto simp add: h_def)
  then have "type_changes (registrations s) (map h (registrations s))
      = length (filter (\<lambda>x. x = p) (registrations s))"
    by (simp add: type_changes_map)
  then have "type_changes (registrations s) (registrations (snd (unregister_user s eid uid)))
      = length (filter (\<lambda>x. x = p) (registrations s))"
    by (simp only: regs')
  also have "\<dots> = 1"
    using d p_in by (rule length_filter_eq_one)
  finally show ?thesis
    using False by simp
qed

lemma unregister_other_types:
  assumes "fetchone (map registration_type (filter (user_active eid uid) (registrations s)))
      \<noteq> Some MainList"
  shows "map registration_type (registrations (snd (unregister_user s eid uid)))
      = map registration_type (registrations s)"
proof (cases "fetchone (map registration_type (filter (user_active eid uid) (registrations s)))")
  case None
  then show ?thesis
    by (simp add: unregister_user_def)
next
  case (Some t)
  with assms have "t \<noteq> MainList"
    by simp
  with Some show ?thesis
    by (simp add: unregister_user_def Let_def comp_def)
qed

lemma register_user_keeps_rows:
  "take (length (registrations s)) (registrations (snd (register_user s eid uid un fn now)))
     = registrations s"
proof (cases "snd (register_user s eid uid un fn now) = s")
  case True
  then show ?thesis by simp
next
  case False
  then obtain row where "registrations (snd (register_user s eid uid un fn now))
      = registrations s @ [row]"
    by (auto simp add: register_user_def insert_registration_def Let_def
          split: option.splits if_splits)
  then show ?thesis by simp
qed

text \<open>
  C3. Let the table constraints hold (\<^verbatim>\<open>UNIQUE(event_id, user_id)\<close>, and the stored ids
  are SQLite integers) and let the user's active registration \<open>r\<close> for the event be of type
  main. Then \<^verbatim>\<open>unregister_user\<close> returns true
  and the registrations table afterwards is the old one with \<open>r\<close> marked cancelled and, when
  the event has active reserve registrations, with one of them, \<open>p\<close>, whose
  \<^verbatim>\<open>registered_at\<close> is the least among them, changed to type main: exactly one row changes
  its type. When the event has no active reserve registration no row changes its type.
  Nothing else changes a type: \<^verbatim>\<open>unregister_user\<close> for a user whose active registration is
  not of type main (or who has none) leaves every type as it was, \<^verbatim>\<open>register_user\<close> leaves
  the rows already stored untouched, and \<^verbatim>\<open>create_event\<close> and \<^verbatim>\<open>cancel_event\<close> do not
  touch the registrations table.
\<close>

theorem unregister_user_promotion:
  "(reg_unique s \<and> regs_storable s \<and>
    fetchone (filter (user_active eid uid) (registrations s)) = Some r \<and>
    registration_type r = MainList \<longrightarrow>
      (if filter (typed_active eid Reserve) (registrations s) = []
       then unregister_user s eid uid =
         (Inr True, s\<lparr>registrations :=
            map (\<lambda>x. if x = r then r\<lparr>reg_status := Cancelled\<rparr> else x) (registrations s)\<rparr>)
       else \<exists>p\<in>set (filter (typed_active eid Reserve) (registrations s)).
         (\<forall>q\<in>set (filter (typed_active eid Reserve) (registrations s)).
            registered_at p \<le> registered_at q) \<and>
         unregister_user s eid uid =
           (Inr True, s\<lparr>registrations :=
              map (\<lambda>x. if x = r then r\<lparr>reg_status := Cancelled\<rparr>
                       else if x = p then p\<lparr>registration_type := MainList\<rparr> else x)
                (registrations s)\<rparr>)) \<and>
      type_changes (registrations s) (registrations (snd (unregister_user s eid uid)))
        = (if filter (typed_active eid Reserve) (registrations s) = [] then 0 else 1)) \<and>
   (fetchone (map registration_type (filter (user_active eid_b uid_b) (registrations s)))
      \<noteq> Some MainList \<longrightarrow>
      map registration_type (registrations (snd (unregister_user s eid_b uid_b)))
        = map registration_type (registrations s)) \<and>
   take (length (registrations s)) (registrations (snd (register_user s eid_c uid_c un fn now)))
     = registrations s \<and>
   registrations (snd (create_event s d t mp cb descr now_c)) = registrations s \<and>
   registrations (snd (cancel_event s eid_d)) = registrations s"
proof -
  have "registrations (snd (create_event s d t mp cb descr now_c)) = registrations s"
    by (simp add: create_event_def Let_def)
  moreover have "registrations (snd (cancel_event s eid_d)) = registrations s"
    by (simp add: cancel_event_def Let_def)
  ultimately show ?thesis
    using unregister_main [of s eid uid r] unregister_main_changes [of s eid uid r]
      unregister_other_types [of eid_b uid_b s] register_user_keeps_rows [of s eid_c uid_c un fn now]
    by blast
qed

theorem unregister_user_promotion_witness:
  "reg_unique demo_store \<and> reg_unique pair_store \<and>
   regs_storable demo_store \<and> regs_storable pair_store \<and>
   map_option user_id (fetchone (filter (user_active 1 7) (registrations demo_store))) = Some 7 \<and>
   map user_id (filter (typed_active 1 Reserve) (registrations demo_store)) = [9] \<and>
   filter (typed_active 1 Reserve) (registrations pair_store) = [] \<and>
   type_changes (registrations demo_store) (registrations (snd (unregister_user demo_store 1 7))) = 1 \<and>
   type_changes (registrations pair_store) (registrations (snd (unregister_user pair_store 1 7))) = 0 \<and>
   map registration_type (registrations (snd (unregister_user demo_store 1 9)))
     = map registration_type (registrations demo_store)"
proof -
  let ?r = "\<lparr>reg_id = 1, event_id = 1, user_id = 7, username = Some ''alice'',
     first_name = Some ''Alice'', registration_type = MainList, registered_at = 10,
     reg_status = Active\<rparr>"
  have u: "reg_unique demo_store" "reg_unique pair_store"
    by code_simp+
  have st: "regs_storable demo_store" "regs_storable pair_store"
    by code_simp+
  have r: "fetchone (filter (user_active 1 7) (registrations demo_store)) = Some ?r"
    "fetchone (filter (user_active 1 7) (registrations pair_store)) = Some ?r"
    by code_simp+
  have m: "registration_type ?r = MainList"
    by simp
  have R: "map user_id (filter (typed_active 1 Reserve) (registrations demo_store)) = [9]"
    "filter (typed_active 1 Reserve) (registrations pair_store) = []"
    by code_simp+
  from R(1) have R1: "filter (typed_active 1 Reserve) (registrations demo_store) \<noteq> []"
    by auto
  have o: "fetchone (map registration_type (filter (user_active 1 9) (registrations demo_store)))
      \<noteq> Some MainList"
    by code_simp
  have "type_changes (registrations demo_store)
      (registrations (snd (unregister_user demo_store 1 7)))
        = (if filter (typed_active 1 Reserve) (registrations demo_store) = [] then 0 else 1)"
    using unregister_user_promotion [where s = demo_store and eid = 1 and uid = 7 and r = ?r]
      u(1) st(1) r(1) m by blast
  with R1 have a: "type_changes (registrations demo_store)
      (registrations (snd (unregister_user demo_store 1 7))) = 1"
    by simp
  have "type_changes (registrations pair_store)
      (registrations (snd (unregister_user pair_store 1 7)))
        = (if filter (typed_active 1 Reserve) (registrations pair_store) = [] then 0 else 1)"
    using unregister_user_promotion [where s = pair_store and eid = 1 and uid = 7 and r = ?r]
      u(2) st(2) r(2) m by blast
  with R(2) have b: "type_changes (registrations pair_store)
      (registrations (snd (unregister_user pair_store 1 7))) = 0"
    by simp
  have c: "map registration_type (registrations (snd (unregister_user demo_store 1 9)))
     = map registration_type (registrations demo_store)"
    using unregister_user_promotion [where s = demo_store and eid_b = 1 and uid_b = 9] o
    by blast
  from u st r(1) R a b c show ?thesis
    by simp
qed

end
